theory Spec2Isabelle
  imports Complex_Main
begin

section \<open>C++ \<open>int\<close> and the QString operations used by mainwindow.cpp\<close>

text \<open>
  The members \<open>nextImageIndex_\<close>, \<open>frameCount_\<close> and \<open>currentFrameIndex_\<close> are C++
  \<open>int\<close>s. They are modelled as \<open>int\<close> with the 32-bit two's complement wrap-around
  written out at every arithmetic operation of the source (\<open>int32\<close>).
\<close>

definition INT_MAX :: int where
  "INT_MAX = 2147483647"

definition INT_MIN :: int where
  "INT_MIN = - 2147483648"

definition int32 :: "int \<Rightarrow> int" where
  "int32 x = (x + 2147483648) mod 4294967296 - 2147483648"

text \<open>\<open>\d\<close> of QRegularExpression without the Unicode-properties option: ASCII digits.\<close>

definition is_digit :: "char \<Rightarrow> bool" where
  "is_digit c = (c \<in> set ''0123456789'')"

definition digit_val :: "char \<Rightarrow> nat" where
  "digit_val c = of_char c - 48"

definition digits_val :: "string \<Rightarrow> nat" where
  "digits_val ds = foldl (\<lambda>a c. 10 * a + digit_val c) 0 ds"

definition is_space :: "char \<Rightarrow> bool" where
  "is_space c = (c \<in> set [CHR '' '', CHR 0x09, CHR 0x0A, CHR 0x0B, CHR 0x0C, CHR 0x0D])"

text \<open>\<open>QString::trimmed\<close>: whitespace removed from both ends.\<close>

definition trimmed :: "string \<Rightarrow> string" where
  "trimmed s = rev (dropWhile is_space (rev (dropWhile is_space s)))"

text \<open>
  \<open>QString::toInt(bool *ok)\<close> in base 10: surrounding whitespace is ignored, an optional
  sign is followed by at least one digit, and the value has to fit an \<open>int\<close>. \<open>None\<close> is
  \<open>ok = false\<close>; the C++ function then returns 0 (\<open>toInt_value\<close>).
\<close>

definition toInt :: "string \<Rightarrow> int option" where
  "toInt s =
     (let t = trimmed s;
          signed = (t \<noteq> [] \<and> (hd t = CHR ''-'' \<or> hd t = CHR ''+''));
          ds = (if signed then tl t else t);
          v = (if t \<noteq> [] \<and> hd t = CHR ''-'' then - int (digits_val ds) else int (digits_val ds))
      in if ds \<noteq> [] \<and> list_all is_digit ds \<and> INT_MIN \<le> v \<and> v \<le> INT_MAX
         then Some v else None)"

definition toInt_value :: "string \<Rightarrow> int" where
  "toInt_value s = (case toInt s of Some v \<Rightarrow> v | None \<Rightarrow> 0)"

text \<open>Decimal rendering of a number, as \<open>QString::number\<close> and \<open>operator<<\<close> give it.\<close>

fun dec_digits :: "nat \<Rightarrow> string" where
  "dec_digits n =
     (if n < 10 then [''0123456789'' ! n]
      else dec_digits (n div 10) @ [''0123456789'' ! (n mod 10)])"

declare dec_digits.simps [simp del]

definition int_to_string :: "int \<Rightarrow> string" where
  "int_to_string i = (if i < 0 then CHR ''-'' # dec_digits (nat (- i)) else dec_digits (nat i))"

text \<open>
  \<open>QString::arg(int a, int fieldWidth, 10, QLatin1Char('0'))\<close>: with the fill character
  \<open>0\<close> the number is zero-padded on the left to the field width, the padding standing
  after a minus sign; a number wider than the field is not truncated.
\<close>

definition arg_int :: "int \<Rightarrow> nat \<Rightarrow> string" where
  "arg_int a fieldWidth =
     (let ds = dec_digits (nat \<bar>a\<bar>);
          w = (if a < 0 then fieldWidth - 1 else fieldWidth)
      in (if a < 0 then ''-'' else '''') @ replicate (w - length ds) CHR ''0'' @ ds)"

definition to_lower :: "char \<Rightarrow> char" where
  "to_lower c =
     (if (65::nat) \<le> of_char c \<and> (of_char c :: nat) \<le> 90 then char_of (of_char c + (32::nat)) else c)"

text \<open>
  A QDir name filter against a file name: \<open>*\<close> stands for any run of characters, \<open>?\<close> for
  one, every other character for itself, letters compared without case (the filter flags
  of the source do not include \<open>QDir::CaseSensitive\<close>).
\<close>

fun wild_match :: "string \<Rightarrow> string \<Rightarrow> bool" where
  "wild_match [] [] = True"
| "wild_match [] (c # cs) = False"
| "wild_match (p # ps) [] = (p = CHR ''*'' \<and> wild_match ps [])"
| "wild_match (p # ps) (c # cs) =
     (if p = CHR ''*'' then wild_match ps (c # cs) \<or> wild_match (p # ps) cs
      else (p = CHR ''?'' \<or> to_lower p = to_lower c) \<and> wild_match ps cs)"

text \<open>
  \<open>QRegularExpression("(\\d+)").globalMatch(base)\<close>: the successive matches from left to
  right, each one a run of digits that the greedy \<open>+\<close> extends as far as digits go.
\<close>

fun globalMatch_acc :: "string \<Rightarrow> string \<Rightarrow> string list" where
  "globalMatch_acc cur [] = (if cur = [] then [] else [cur])"
| "globalMatch_acc cur (c # cs) =
     (if is_digit c then globalMatch_acc (cur @ [c]) cs
      else (if cur = [] then [] else [cur]) @ globalMatch_acc [] cs)"

definition globalMatch :: "string \<Rightarrow> string list" where
  "globalMatch base = globalMatch_acc [] base"

section \<open>The file system the window works on\<close>

record fs_entry =
  entry_name :: string
  is_file :: bool
  is_symlink :: bool
  is_readable :: bool
  is_hidden :: bool

text \<open>What \<open>cv::imwrite\<close> leaves behind: a plain, readable file.\<close>

definition plain_file :: "string \<Rightarrow> fs_entry" where
  "plain_file n =
     \<lparr>entry_name = n, is_file = True, is_symlink = False, is_readable = True, is_hidden = False\<rparr>"

text \<open>\<open>QFileInfo::completeBaseName\<close>: the name up to, not including, its last dot.\<close>

definition completeBaseName :: "string \<Rightarrow> string" where
  "completeBaseName n =
     (if CHR ''.'' \<in> set n then rev (tl (dropWhile (\<lambda>c. c \<noteq> CHR ''.'') (rev n))) else n)"

definition name_filters :: "string list" where
  "name_filters = [''*.jpg'', ''*.jpeg'', ''*.png'', ''*.bmp'']"

text \<open>
  \<open>dir.entryInfoList(filters, QDir::Files | QDir::NoSymLinks | QDir::Readable)\<close>: plain
  files that are no symbolic links, are readable, are not hidden (\<open>QDir::Hidden\<close> is not
  asked for) and whose name matches one of the filters. The listing is kept in directory
  order: the scan below takes a maximum, which does not depend on the order.
\<close>

definition entryInfoList :: "fs_entry list \<Rightarrow> fs_entry list" where
  "entryInfoList es =
     filter (\<lambda>e. is_file e \<and> \<not> is_symlink e \<and> is_readable e \<and> \<not> is_hidden e \<and>
                 list_ex (\<lambda>f. wild_match f (entry_name e)) name_filters) es"

section \<open>The decoder behind \<open>cv::VideoCapture\<close>\<close>

text \<open>
  Decoding is done by an external library. A video is the list of its decodable frames,
  the frame rate and frame count it reports, and \<open>v_land\<close>: the position at which a
  request to seek to a frame index really lands (codecs need not seek exactly; an exact
  decoder has \<open>v_land v i = i\<close>). A \<open>cv::Mat\<close> is \<open>None\<close> when empty, else the frame.
\<close>

type_synonym frame = nat

type_synonym mat = "frame option"

record video =
  v_frames :: "frame list"
  v_fps :: real
  v_frame_count :: int
  v_land :: "int \<Rightarrow> int"

record capture =
  cap_video :: "video option"
  cap_pos :: int

definition isOpened :: "capture \<Rightarrow> bool" where
  "isOpened c = (cap_video c \<noteq> None)"

definition release :: "capture \<Rightarrow> capture" where
  "release c = \<lparr>cap_video = None, cap_pos = 0\<rparr>"

text \<open>\<open>cap.open(path)\<close> on a released capture: opened at position 0 when the video is found.\<close>

definition cap_open :: "capture \<Rightarrow> (string \<Rightarrow> video option) \<Rightarrow> string \<Rightarrow> capture" where
  "cap_open c vids path =
     (case vids path of None \<Rightarrow> c | Some v \<Rightarrow> \<lparr>cap_video = Some v, cap_pos = 0\<rparr>)"

text \<open>\<open>cap.set(CAP_PROP_POS_FRAMES, i)\<close>\<close>

definition cap_set_pos :: "capture \<Rightarrow> int \<Rightarrow> capture" where
  "cap_set_pos c i = (case cap_video c of None \<Rightarrow> c | Some v \<Rightarrow> c\<lparr>cap_pos := v_land v i\<rparr>)"

text \<open>\<open>cap.read(frame)\<close>: delivers the frame at the position and advances, or fails.\<close>

definition cap_read :: "capture \<Rightarrow> mat \<times> capture" where
  "cap_read c =
     (case cap_video c of
        None \<Rightarrow> (None, c)
      | Some v \<Rightarrow>
          if 0 \<le> cap_pos c \<and> cap_pos c < int (length (v_frames v))
          then (Some (v_frames v ! nat (cap_pos c)), c\<lparr>cap_pos := cap_pos c + 1\<rparr>)
          else (None, c))"

section \<open>The world outside the window\<close>

text \<open>
  \<open>videos\<close>: what \<open>cap.open(path)\<close> finds; \<open>dirs\<close>: the listing of every existing
  directory; \<open>can_mkpath\<close> and \<open>can_write\<close>: whether \<open>QDir::mkpath\<close> and \<open>cv::imwrite\<close>
  succeed; \<open>config_file\<close>: the lines of the config file when it exists and can be read;
  \<open>config_writable\<close>: whether it can be opened for writing.
\<close>

record world =
  videos :: "string \<Rightarrow> video option"
  dirs :: "string \<Rightarrow> fs_entry list option"
  can_mkpath :: "string \<Rightarrow> bool"
  can_write :: "string \<Rightarrow> string \<Rightarrow> bool"
  config_file :: "string list option"
  config_writable :: bool

text \<open>\<open>if (!dir.exists()) dir.mkpath(".")\<close>\<close>

definition mkpath_if_absent :: "world \<Rightarrow> string \<Rightarrow> world" where
  "mkpath_if_absent w d =
     (if dirs w d = None \<and> can_mkpath w d then w\<lparr>dirs := (dirs w)(d \<mapsto> [])\<rparr> else w)"

text \<open>
  \<open>cv::imwrite(dir.filePath(filename), frame)\<close> for a non-empty frame: the entry
  \<open>filename\<close> of directory \<open>d\<close> is created or replaced; the result is \<open>None\<close> when the
  write fails.
\<close>

definition imwrite :: "world \<Rightarrow> string \<Rightarrow> string \<Rightarrow> world option" where
  "imwrite w d filename =
     (case dirs w d of
        None \<Rightarrow> None
      | Some es \<Rightarrow>
          if can_write w d filename
          then Some (w\<lparr>dirs := (dirs w)(d \<mapsto>
                  filter (\<lambda>e. entry_name e \<noteq> filename) es @ [plain_file filename])\<rparr>)
          else None)"

section \<open>The widgets that carry state\<close>

record slider =
  sl_minimum :: int
  sl_maximum :: int
  sl_value :: int

text \<open>\<open>QAbstractSlider\<close>: the value is kept within the range.\<close>

definition setValue :: "slider \<Rightarrow> int \<Rightarrow> slider" where
  "setValue sl v = sl\<lparr>sl_value := max (sl_minimum sl) (min (sl_maximum sl) v)\<rparr>"

definition setRange :: "slider \<Rightarrow> int \<Rightarrow> int \<Rightarrow> slider" where
  "setRange sl lo hi = setValue (sl\<lparr>sl_minimum := lo, sl_maximum := max lo hi\<rparr>) (sl_value sl)"

definition setMinimum :: "slider \<Rightarrow> int \<Rightarrow> slider" where
  "setMinimum sl lo = setRange sl lo (max (sl_maximum sl) lo)"

definition setMaximum :: "slider \<Rightarrow> int \<Rightarrow> slider" where
  "setMaximum sl hi = setRange sl (min (sl_minimum sl) hi) hi"

record timer =
  interval :: int
  active :: bool

datatype notice =
  Warning string string
| Information string string
| StatusMessage string

section \<open>MainWindow\<close>

text \<open>
  The members of \<open>MainWindow\<close> that carry the state of the core, under the source's names
  without the trailing underscore. \<open>notices\<close> is the sequence of message boxes and status
  bar messages shown so far. Labels, tool tips, the overlay glyph and the label flash are
  presentation only and are left out.
\<close>

record mainwindow =
  cap :: capture
  fps :: real
  frameCount :: int
  currentFrameIndex :: int
  currentFrameBGR :: mat
  playing :: bool
  sliderHeld :: bool
  timer :: timer
  timeSlider :: slider
  lastVideoPath :: string
  saveDirPath :: string
  nextImageIndex :: int
  notices :: "notice list"

subsection \<open>Playback\<close>

definition updateTimerFromFPS :: "mainwindow \<Rightarrow> mainwindow" where
  "updateTimerFromFPS s =
     (let intervalMs = \<lfloor>1000 / max 1 (fps s)\<rfloor>
      in s\<lparr>timer := (timer s)\<lparr>interval := intervalMs\<rparr>\<rparr>)"

definition ensureSliderRange :: "mainwindow \<Rightarrow> mainwindow" where
  "ensureSliderRange s =
     s\<lparr>timeSlider :=
         setMaximum (setMinimum (timeSlider s) 0) (max 0 (int32 (frameCount s - 1)))\<rparr>"

text \<open>\<open>std::clamp(v, lo, hi)\<close>\<close>

definition clamp :: "int \<Rightarrow> int \<Rightarrow> int \<Rightarrow> int" where
  "clamp v lo hi = (if v < lo then lo else if hi < v then hi else v)"

definition seekTo :: "int \<Rightarrow> mainwindow \<Rightarrow> mainwindow" where
  "seekTo frameIndex s =
     (if \<not> isOpened (cap s) then s
      else
        let frameIndex' = clamp frameIndex 0 (max 0 (int32 (frameCount s - 1)));
            c1 = cap_set_pos (cap s) frameIndex'
        in case cap_read c1 of
             (Some frame, c2) \<Rightarrow>
               let idx = int32 (cap_pos c2 - 1);
                   s1 = s\<lparr>cap := c2, currentFrameIndex := idx, currentFrameBGR := Some frame\<rparr>
               in if \<not> sliderHeld s1 then s1\<lparr>timeSlider := setValue (timeSlider s1) idx\<rparr> else s1
           | (None, c2) \<Rightarrow> s\<lparr>cap := c2\<rparr>)"

definition stepRelative :: "int \<Rightarrow> mainwindow \<Rightarrow> mainwindow" where
  "stepRelative deltaFrames s =
     (let target = int32 (currentFrameIndex s + deltaFrames) in seekTo target s)"

definition setPlaying :: "bool \<Rightarrow> mainwindow \<Rightarrow> mainwindow" where
  "setPlaying on s = s\<lparr>playing := on, timer := (timer s)\<lparr>active := on\<rparr>\<rparr>"

definition togglePlayPause :: "mainwindow \<Rightarrow> mainwindow" where
  "togglePlayPause s = (if \<not> isOpened (cap s) then s else setPlaying (\<not> playing s) s)"

definition on_playPauseBtn_clicked :: "mainwindow \<Rightarrow> mainwindow" where
  "on_playPauseBtn_clicked s = (if \<not> isOpened (cap s) then s else setPlaying (\<not> playing s) s)"

definition tick :: "mainwindow \<Rightarrow> mainwindow" where
  "tick s =
     (if \<not> isOpened (cap s) then s
      else case cap_read (cap s) of
             (None, c2) \<Rightarrow> setPlaying False (s\<lparr>cap := c2\<rparr>)
           | (Some frame, c2) \<Rightarrow>
               let idx = int32 (cap_pos c2 - 1);
                   s1 = s\<lparr>cap := c2, currentFrameIndex := idx, currentFrameBGR := Some frame\<rparr>
               in if \<not> sliderHeld s1 then s1\<lparr>timeSlider := setValue (timeSlider s1) idx\<rparr> else s1)"

definition openVideo :: "world \<Rightarrow> string \<Rightarrow> mainwindow \<Rightarrow> mainwindow" where
  "openVideo w path s =
     (let c0 = (if isOpened (cap s) then release (cap s) else cap s);
          c1 = cap_open c0 (videos w) path
      in if \<not> isOpened c1
         then s\<lparr>cap := c1, notices := notices s @ [Warning ''Error'' ''Failed to open video.'']\<rparr>
         else
           let f = (case cap_video c1 of Some v \<Rightarrow> v_fps v | None \<Rightarrow> 0);
               n = (case cap_video c1 of Some v \<Rightarrow> v_frame_count v | None \<Rightarrow> 0);
               s1 = s\<lparr>cap := c1, fps := (if f \<le> 0 then 30 else f),
                      frameCount := n, currentFrameIndex := 0\<rparr>
           in seekTo 0 (updateTimerFromFPS (ensureSliderRange s1)))"

subsection \<open>Directory scanner and save sequencer\<close>

text \<open>The inner \<open>while (it.hasNext())\<close> loop over the matches of one base name.\<close>

fun scan_matches :: "string list \<Rightarrow> int \<Rightarrow> int" where
  "scan_matches [] maxNum = maxNum"
| "scan_matches (m # ms) maxNum =
     scan_matches ms (case toInt m of Some num \<Rightarrow> max maxNum num | None \<Rightarrow> maxNum)"

text \<open>The outer \<open>for (const QFileInfo &fi : list)\<close> loop.\<close>

fun scan_files :: "fs_entry list \<Rightarrow> int \<Rightarrow> int" where
  "scan_files [] maxNum = maxNum"
| "scan_files (fi # list) maxNum =
     scan_files list (scan_matches (globalMatch (completeBaseName (entry_name fi))) maxNum)"

definition extractLargestNumberInDir :: "world \<Rightarrow> string \<Rightarrow> int" where
  "extractLargestNumberInDir w dirPath =
     (case dirs w dirPath of
        None \<Rightarrow> 0
      | Some es \<Rightarrow> scan_files (entryInfoList es) 0)"

definition recalcNextImageFromDir :: "world \<Rightarrow> mainwindow \<Rightarrow> mainwindow" where
  "recalcNextImageFromDir w s =
     (if saveDirPath s = [] then s\<lparr>nextImageIndex := 1\<rparr>
      else s\<lparr>nextImageIndex := int32 (extractLargestNumberInDir w (saveDirPath s) + 1)\<rparr>)"

definition config_lines :: "mainwindow \<Rightarrow> string list" where
  "config_lines s =
     [''# Simple config for Video Dataset Preparation Tool'',
      ''last_video='' @ lastVideoPath s,
      ''save_dir='' @ saveDirPath s,
      ''next_image='' @ int_to_string (nextImageIndex s)]"

definition saveConfig :: "world \<Rightarrow> mainwindow \<Rightarrow> world" where
  "saveConfig w s =
     (if \<not> config_writable w then w else w\<lparr>config_file := Some (config_lines s)\<rparr>)"

definition image_filename :: "int \<Rightarrow> string" where
  "image_filename n = ''image_'' @ arg_int n 4 @ ''.png''"

definition saveCurrentFrame :: "world \<times> mainwindow \<Rightarrow> world \<times> mainwindow" where
  "saveCurrentFrame ws =
     (let w = fst ws; s = snd ws in
      if currentFrameBGR s = None then (w, s)
      else if saveDirPath s = []
      then (w, s\<lparr>notices := notices s @
                  [Information ''Save directory required''
                     ''Please select a save directory first.'']\<rparr>)
      else
        let w1 = mkpath_if_absent w (saveDirPath s);
            s1 = recalcNextImageFromDir w1 s;
            filename = image_filename (nextImageIndex s1)
        in case imwrite w1 (saveDirPath s1) filename of
             None \<Rightarrow>
               (w1, s1\<lparr>notices := notices s1 @ [Warning ''Save failed'' ''Could not save image.'']\<rparr>)
           | Some w2 \<Rightarrow>
               let s2 = s1\<lparr>nextImageIndex := int32 (nextImageIndex s1 + 1)\<rparr>
               in (saveConfig w2 s2,
                   s2\<lparr>notices := notices s2 @ [StatusMessage (''Saved: '' @ filename)]\<rparr>))"

subsection \<open>Config file\<close>

text \<open>\<open>line.indexOf('=')\<close>: the number of characters before the first \<open>=\<close>, or -1.\<close>

definition indexOf_eq :: "string \<Rightarrow> int" where
  "indexOf_eq line =
     (if CHR ''='' \<in> set line then int (length (takeWhile (\<lambda>c. c \<noteq> CHR ''='') line)) else - 1)"

text \<open>
  The body of the \<open>while (!in.atEnd())\<close> loop, for one line read. \<open>config_entry\<close> is its
  first half: the key and the value of the line, or \<open>None\<close> where the loop says \<open>continue\<close>
  (a blank line, a comment, no \<open>=\<close> or nothing before it).
\<close>

definition config_entry :: "string \<Rightarrow> (string \<times> string) option" where
  "config_entry raw =
     (let line = trimmed raw in
      if line = [] \<or> hd line = CHR ''#'' then None
      else
        let eq = indexOf_eq line in
        if eq \<le> 0 then None
        else Some (trimmed (take (nat eq) line), trimmed (drop (nat (eq + 1)) line)))"

definition loadConfig_line :: "mainwindow \<Rightarrow> string \<Rightarrow> mainwindow" where
  "loadConfig_line s raw =
     (case config_entry raw of
        None \<Rightarrow> s
      | Some (key, val) \<Rightarrow>
          if key = ''last_video'' then s\<lparr>lastVideoPath := val\<rparr>
          else if key = ''save_dir'' then s\<lparr>saveDirPath := val\<rparr>
          else if key = ''next_image'' then s\<lparr>nextImageIndex := toInt_value val\<rparr>
          else s)"

definition loadConfig :: "world \<Rightarrow> mainwindow \<Rightarrow> mainwindow" where
  "loadConfig w s =
     (case config_file w of
        None \<Rightarrow> s
      | Some lines \<Rightarrow> foldl loadConfig_line s lines)"

section \<open>Concrete inputs\<close>

text \<open>A window in which nothing has been opened or selected, and a world with nothing in it.\<close>

definition idle_window :: mainwindow where
  "idle_window =
     \<lparr>cap = \<lparr>cap_video = None, cap_pos = 0\<rparr>, fps = 0, frameCount = 0, currentFrameIndex = 0,
      currentFrameBGR = None, playing = False, sliderHeld = False,
      timer = \<lparr>interval = 0, active = False\<rparr>,
      timeSlider = \<lparr>sl_minimum = 0, sl_maximum = 99, sl_value = 0\<rparr>,
      lastVideoPath = [], saveDirPath = [], nextImageIndex = 1, notices = []\<rparr>"

definition bare_world :: world where
  "bare_world =
     \<lparr>videos = (\<lambda>p. None), dirs = (\<lambda>d. None), can_mkpath = (\<lambda>d. False),
      can_write = (\<lambda>d f. False), config_file = None, config_writable = False\<rparr>"

text \<open>Three videos with an exact decoder.\<close>

definition clip3 :: video where
  "clip3 = \<lparr>v_frames = [10, 11, 12], v_fps = 25, v_frame_count = 3, v_land = (\<lambda>i. i)\<rparr>"

definition fast_clip :: video where
  "fast_clip = \<lparr>v_frames = [20, 21], v_fps = 60, v_frame_count = 2, v_land = (\<lambda>i. i)\<rparr>"

definition empty_clip :: video where
  "empty_clip = \<lparr>v_frames = [], v_fps = 30, v_frame_count = 0, v_land = (\<lambda>i. i)\<rparr>"

text \<open>Two directory listings, and a world that holds the videos and the directories.\<close>

definition data_listing :: "fs_entry list" where
  "data_listing = [plain_file ''frame3.png'', plain_file ''img_10_v2.png'', plain_file ''x.png'']"

definition big_listing :: "fs_entry list" where
  "big_listing = [plain_file ''frame3.png'', plain_file ''99999999999.png'']"

definition studio_world :: world where
  "studio_world =
     \<lparr>videos = [''clip.mp4'' \<mapsto> clip3, ''fast.mp4'' \<mapsto> fast_clip, ''empty.mp4'' \<mapsto> empty_clip],
      dirs = [''/out'' \<mapsto> [], ''/data'' \<mapsto> data_listing, ''/big'' \<mapsto> big_listing],
      can_mkpath = (\<lambda>d. True), can_write = (\<lambda>d f. True),
      config_file = None, config_writable = True\<rparr>"

section \<open>The directory scanner as the specification words it\<close>

text \<open>
  A maximal run of decimal digits of \<open>s\<close>: a non-empty stretch of digits of \<open>s\<close> with no
  digit directly before it and none directly after it.
\<close>

definition maximal_digit_run :: "string \<Rightarrow> string \<Rightarrow> bool" where
  "maximal_digit_run s r =
     (r \<noteq> [] \<and> list_all is_digit r \<and>
      (\<exists>pre post. s = pre @ r @ post \<and>
         (pre = [] \<or> \<not> is_digit (last pre)) \<and> (post = [] \<or> \<not> is_digit (hd post))))"

text \<open>
  \<open>spec_largestNumber\<close> follows the specification: 0 for a directory that does not exist,
  else the maximum, over the image files and over every maximal digit run of their base
  names, of the run read as a number (0 when there is no run). \<open>largest_int_run\<close> is the
  same maximum over the runs whose number fits a C++ \<open>int\<close>.
\<close>

definition spec_largestNumber :: "world \<Rightarrow> string \<Rightarrow> int" where
  "spec_largestNumber w dirPath =
     (case dirs w dirPath of
        None \<Rightarrow> 0
      | Some es \<Rightarrow>
          Max (insert 0 {int (digits_val r) | e r.
                 e \<in> set (entryInfoList es) \<and>
                 maximal_digit_run (completeBaseName (entry_name e)) r}))"

definition largest_int_run :: "world \<Rightarrow> string \<Rightarrow> int" where
  "largest_int_run w dirPath =
     (case dirs w dirPath of
        None \<Rightarrow> 0
      | Some es \<Rightarrow>
          Max (insert 0 {int (digits_val r) | e r.
                 e \<in> set (entryInfoList es) \<and>
                 maximal_digit_run (completeBaseName (entry_name e)) r \<and>
                 int (digits_val r) \<le> INT_MAX}))"

text \<open>Two config files whose \<open>next_image\<close> value is no number.\<close>

definition broken_config_world :: world where
  "broken_config_world =
     bare_world\<lparr>config_file := Some [''# settings'', ''last_video=v.mp4'', ''save_dir=/out'',
                                     ''next_image=abc'']\<rparr>"

definition twice_config_world :: world where
  "twice_config_world =
     bare_world\<lparr>config_file := Some [''next_image=7'', ''next_image=abc'']\<rparr>"


section \<open>Saving without a decoded frame\<close>

text \<open>
  C10. While the current-frame buffer is empty, \<open>saveCurrentFrame\<close> returns at once: the
  world (no file written, no config written) and the whole window state (counter, notices)
  are unchanged. The check comes before the one on the save directory, so this also holds
  when no directory is selected: no notice is shown.
\<close>

theorem saveCurrentFrame_without_frame:
  "currentFrameBGR s = None \<Longrightarrow> saveCurrentFrame (w, s) = (w, s)"
  by (simp add: saveCurrentFrame_def)

theorem saveCurrentFrame_without_frame_witness:
  "currentFrameBGR idle_window = None \<and> saveDirPath idle_window = [] \<and>
   saveCurrentFrame (bare_world, idle_window) = (bare_world, idle_window)"
proof -
  have h: "currentFrameBGR idle_window = None" by (simp add: idle_window_def)
  have d: "saveDirPath idle_window = []" by (simp add: idle_window_def)
  from h d saveCurrentFrame_without_frame [OF h, of bare_world] show ?thesis by blast
qed


section \<open>Playback cursor\<close>

subsection \<open>Auxiliary facts\<close>

lemma int32_id: "INT_MIN \<le> x \<Longrightarrow> x \<le> INT_MAX \<Longrightarrow> int32 x = x"
  by (simp add: int32_def INT_MIN_def INT_MAX_def)

lemma seekTo_playing [simp]: "playing (seekTo i s) = playing s"
  by (simp add: seekTo_def Let_def split: prod.splits option.splits)

lemma seekTo_timer [simp]: "timer (seekTo i s) = timer s"
  by (simp add: seekTo_def Let_def split: prod.splits option.splits)

lemma seekTo_fps [simp]: "fps (seekTo i s) = fps s"
  by (simp add: seekTo_def Let_def split: prod.splits option.splits)

lemma seekTo_frameCount [simp]: "frameCount (seekTo i s) = frameCount s"
  by (simp add: seekTo_def Let_def split: prod.splits option.splits)

lemma seekTo_empty_stream:
  assumes "cap_video (cap s) = Some v" and "v_frames v = []"
  shows "seekTo j s = s\<lparr>cap := (cap s)\<lparr>cap_pos := v_land v (clamp j 0 (max 0 (int32 (frameCount s - 1))))\<rparr>\<rparr>"
  using assms by (auto simp add: seekTo_def isOpened_def cap_set_pos_def cap_read_def Let_def)

lemma seekTo_exact:
  assumes v: "cap_video (cap s) = Some v"
    and exact: "\<forall>i. v_land v i = i"
    and cnt: "frameCount s = int (length (v_frames v))"
    and rng: "frameCount s \<le> INT_MAX"
    and ne: "v_frames v \<noteq> []"
  shows "currentFrameIndex (seekTo j s) = clamp j 0 (frameCount s - 1) \<and>
         currentFrameBGR (seekTo j s) = Some (v_frames v ! nat (clamp j 0 (frameCount s - 1))) \<and>
         cap_video (cap (seekTo j s)) = Some v"
proof -
  have pos: "1 \<le> frameCount s" using cnt ne by (cases "v_frames v") auto
  have a: "int32 (frameCount s - 1) = frameCount s - 1"
    using pos rng by (intro int32_id) (simp_all add: INT_MIN_def INT_MAX_def)
  define t where "t = clamp j 0 (frameCount s - 1)"
  have t: "0 \<le> t" "t < frameCount s" using pos by (auto simp add: t_def clamp_def)
  have b: "int32 t = t" using t rng by (intro int32_id) (simp_all add: INT_MIN_def INT_MAX_def)
  have tgt: "clamp j 0 (max 0 (int32 (frameCount s - 1))) = t"
    using pos by (simp add: a t_def)
  have st: "cap_set_pos (cap s) t = (cap s)\<lparr>cap_pos := t\<rparr>"
    using v exact by (simp add: cap_set_pos_def)
  have rd: "cap_read ((cap s)\<lparr>cap_pos := t\<rparr>) =
            (Some (v_frames v ! nat t), (cap s)\<lparr>cap_pos := t + 1\<rparr>)"
    using v t cnt by (simp add: cap_read_def)
  have op: "isOpened (cap s)" using v by (simp add: isOpened_def)
  show ?thesis
    unfolding t_def [symmetric]
    using v by (simp add: seekTo_def op tgt st rd b Let_def)
qed


lemma seekTo_clamped:
  "seekTo j s = seekTo (clamp j 0 (max 0 (int32 (frameCount s - 1)))) s"
  by (simp add: seekTo_def clamp_def)

lemma clamp_range: "lo \<le> hi \<Longrightarrow> lo \<le> clamp v lo hi \<and> clamp v lo hi \<le> hi"
  by (simp add: clamp_def)

lemma openVideo_found:
  assumes "videos w path = Some v"
  shows "openVideo w path s =
     seekTo 0 (updateTimerFromFPS (ensureSliderRange
       (s\<lparr>cap := \<lparr>cap_video = Some v, cap_pos = 0\<rparr>, fps := (if v_fps v \<le> 0 then 30 else v_fps v),
          frameCount := v_frame_count v, currentFrameIndex := 0\<rparr>)))"
  using assms by (simp add: openVideo_def cap_open_def isOpened_def Let_def)


lemma openVideo_play_state:
  assumes "videos w path = Some v"
  shows "playing (openVideo w path s) = playing s"
    and "active (timer (openVideo w path s)) = active (timer s)"
    and "interval (timer (openVideo w path s)) = \<lfloor>1000 / max 1 (fps (openVideo w path s))\<rfloor>"
    and "fps (openVideo w path s) = (if v_fps v \<le> 0 then 30 else v_fps v)"
    and "frameCount (openVideo w path s) = v_frame_count v"
  by (simp_all add: openVideo_found [OF assms] updateTimerFromFPS_def ensureSliderRange_def)

lemma openVideo_opened:
  assumes "videos w path = Some v"
  shows "cap_video (cap (openVideo w path s)) = Some v"
  unfolding openVideo_found [OF assms]
  by (auto simp add: seekTo_def isOpened_def cap_set_pos_def cap_read_def Let_def
      updateTimerFromFPS_def ensureSliderRange_def)

lemma openVideo_not_found:
  assumes "videos w path = None"
  shows "openVideo w path s =
     s\<lparr>cap := (if isOpened (cap s) then release (cap s) else cap s),
       notices := notices s @ [Warning ''Error'' ''Failed to open video.'']\<rparr>"
  using assms by (auto simp add: openVideo_def cap_open_def isOpened_def release_def Let_def)

subsection \<open>The concrete inputs, evaluated\<close>

lemma idle_window_sel:
  "cap idle_window = \<lparr>cap_video = None, cap_pos = 0\<rparr>"
  "playing idle_window = False"
  "sliderHeld idle_window = False"
  "timer idle_window = \<lparr>interval = 0, active = False\<rparr>"
  "timeSlider idle_window = \<lparr>sl_minimum = 0, sl_maximum = 99, sl_value = 0\<rparr>"
  "currentFrameBGR idle_window = None"
  "currentFrameIndex idle_window = 0"
  "frameCount idle_window = 0"
  "saveDirPath idle_window = []"
  "nextImageIndex idle_window = 1"
  "notices idle_window = []"
  by (simp_all add: idle_window_def)

lemma studio_videos:
  "videos studio_world ''clip.mp4'' = Some clip3"
  "videos studio_world ''fast.mp4'' = Some fast_clip"
  "videos studio_world ''empty.mp4'' = Some empty_clip"
  "videos studio_world ''missing.mp4'' = None"
  by (simp_all add: studio_world_def)

lemma clip_sel:
  "v_frames clip3 = [10, 11, 12]" "v_land clip3 k = k" "v_frame_count clip3 = 3" "v_fps clip3 = 25"
  "v_frames fast_clip = [20, 21]" "v_land fast_clip k = k" "v_frame_count fast_clip = 2"
  "v_fps fast_clip = 60"
  "v_frames empty_clip = []" "v_land empty_clip k = k" "v_frame_count empty_clip = 0"
  "v_fps empty_clip = 30"
  by (simp_all add: clip3_def fast_clip_def empty_clip_def)

lemma int32_small: "int32 0 = 0" "int32 1 = 1" "int32 2 = 2" "int32 (- 1) = - 1"
  by (simp_all add: int32_def)

lemma open_clip:
  "openVideo studio_world ''clip.mp4'' idle_window =
     idle_window\<lparr>cap := \<lparr>cap_video = Some clip3, cap_pos = 1\<rparr>, fps := 25, frameCount := 3,
       currentFrameIndex := 0,
       currentFrameBGR := Some 10, timer := \<lparr>interval = 40, active = False\<rparr>,
       timeSlider := \<lparr>sl_minimum = 0, sl_maximum = 2, sl_value = 0\<rparr>\<rparr>"
  unfolding openVideo_found [OF studio_videos(1)]
  by (simp add: idle_window_sel clip_sel int32_small seekTo_def isOpened_def cap_set_pos_def
      cap_read_def updateTimerFromFPS_def ensureSliderRange_def setMaximum_def setMinimum_def
      setRange_def setValue_def clamp_def Let_def)

lemma step_clip:
  "stepRelative 1 (openVideo studio_world ''clip.mp4'' idle_window) =
     idle_window\<lparr>cap := \<lparr>cap_video = Some clip3, cap_pos = 2\<rparr>, fps := 25, frameCount := 3,
       currentFrameIndex := 1,
       currentFrameBGR := Some 11, timer := \<lparr>interval = 40, active = False\<rparr>,
       timeSlider := \<lparr>sl_minimum = 0, sl_maximum = 2, sl_value = 1\<rparr>\<rparr>"
  unfolding open_clip
  by (simp add: idle_window_sel clip_sel int32_small stepRelative_def seekTo_def isOpened_def
      cap_set_pos_def cap_read_def setValue_def clamp_def Let_def)

lemma seek_last_clip:
  "seekTo 2 (openVideo studio_world ''clip.mp4'' idle_window) =
     idle_window\<lparr>cap := \<lparr>cap_video = Some clip3, cap_pos = 3\<rparr>, fps := 25, frameCount := 3,
       currentFrameIndex := 2,
       currentFrameBGR := Some 12, timer := \<lparr>interval = 40, active = False\<rparr>,
       timeSlider := \<lparr>sl_minimum = 0, sl_maximum = 2, sl_value = 2\<rparr>\<rparr>"
  unfolding open_clip
  by (simp add: idle_window_sel clip_sel int32_small seekTo_def isOpened_def
      cap_set_pos_def cap_read_def setValue_def clamp_def Let_def)

subsection \<open>Opening a video\<close>




text \<open>
  C9 (as amended). A failed \<open>openVideo\<close> shows the warning and leaves the decoder
  released; nothing else changes, whether or not a session existed before: the frame
  buffer, the frame index, the frame count and the play state of the previous session are
  all retained.
\<close>

theorem openVideo_failure:
  "videos w path = None \<Longrightarrow>
   openVideo w path s =
     s\<lparr>cap := (if isOpened (cap s) then release (cap s) else cap s),
       notices := notices s @ [Warning ''Error'' ''Failed to open video.'']\<rparr> \<and>
   \<not> isOpened (cap (openVideo w path s)) \<and>
   currentFrameBGR (openVideo w path s) = currentFrameBGR s \<and>
   currentFrameIndex (openVideo w path s) = currentFrameIndex s"
  by (auto simp add: openVideo_not_found isOpened_def release_def)

theorem openVideo_failure_witness:
  "videos studio_world ''missing.mp4'' = None \<and>
   openVideo studio_world ''missing.mp4'' idle_window =
     idle_window\<lparr>notices := [Warning ''Error'' ''Failed to open video.'']\<rparr> \<and>
   \<not> isOpened (cap (openVideo studio_world ''missing.mp4'' idle_window))"
  using openVideo_failure [OF studio_videos(4), of idle_window] studio_videos(4)
  by (simp add: idle_window_sel isOpened_def)

text \<open>
  The claim as stated fails: after a failed open on top of a session showing frame 1, that
  frame and its index are still the current ones.
\<close>

theorem failed_open_keeps_frame_counterexample:
  "isOpened (cap (stepRelative 1 (openVideo studio_world ''clip.mp4'' idle_window))) \<and>
   videos studio_world ''missing.mp4'' = None \<and>
   \<not> isOpened (cap (openVideo studio_world ''missing.mp4''
     (stepRelative 1 (openVideo studio_world ''clip.mp4'' idle_window)))) \<and>
   currentFrameBGR (openVideo studio_world ''missing.mp4''
     (stepRelative 1 (openVideo studio_world ''clip.mp4'' idle_window))) = Some 11 \<and>
   currentFrameIndex (openVideo studio_world ''missing.mp4''
     (stepRelative 1 (openVideo studio_world ''clip.mp4'' idle_window))) = 1"
  unfolding openVideo_not_found [OF studio_videos(4)] step_clip
  by (simp add: studio_videos isOpened_def release_def)

subsection \<open>Timer cadence\<close>




subsection \<open>Empty streams\<close>

text \<open>
  C7 (as amended). In a session opened on a stream with no frames and a reported frame
  count of 0, \<open>frameCount\<close> is 0, the index is 0, and every \<open>seekTo\<close> and every
  \<open>stepRelative\<close> leaves the whole window state unchanged (no read succeeds). Playback can
  still be switched on: \<open>setPlaying(true)\<close> and the play/pause toggle set \<open>playing\<close>, and it
  is the next tick, whose read fails, that switches it off again.
\<close>

theorem empty_stream_session:
  assumes "videos w path = Some v" and "v_frames v = []" and "v_frame_count v = 0"
  shows "frameCount (openVideo w path s) = 0 \<and>
         currentFrameIndex (openVideo w path s) = 0 \<and>
         currentFrameBGR (openVideo w path s) = currentFrameBGR s \<and>
         (\<forall>j. seekTo j (openVideo w path s) = openVideo w path s) \<and>
         (\<forall>d. stepRelative d (openVideo w path s) = openVideo w path s) \<and>
         playing (setPlaying True (openVideo w path s)) \<and>
         playing (togglePlayPause (setPlaying False (openVideo w path s))) \<and>
         \<not> playing (tick (setPlaying True (openVideo w path s)))"
proof -
  define s1 where "s1 = updateTimerFromFPS (ensureSliderRange
       (s\<lparr>cap := \<lparr>cap_video = Some v, cap_pos = 0\<rparr>, fps := (if v_fps v \<le> 0 then 30 else v_fps v),
          frameCount := v_frame_count v, currentFrameIndex := 0\<rparr>))"
  define s' where "s' = openVideo w path s"
  have c: "cap_video (cap s1) = Some v"
    by (simp add: s1_def updateTimerFromFPS_def ensureSliderRange_def)
  have n1: "frameCount s1 = 0"
    using assms by (simp add: s1_def updateTimerFromFPS_def ensureSliderRange_def)
  have i1: "currentFrameIndex s1 = 0"
    by (simp add: s1_def updateTimerFromFPS_def ensureSliderRange_def)
  have b1: "currentFrameBGR s1 = currentFrameBGR s"
    by (simp add: s1_def updateTimerFromFPS_def ensureSliderRange_def)
  have z: "clamp j 0 (max 0 (int32 (0 - 1))) = 0" for j
    by (simp add: clamp_def int32_def)
  have "s' = seekTo 0 s1"
    unfolding s'_def s1_def using assms(1) by (rule openVideo_found)
  also have "\<dots> = s1\<lparr>cap := (cap s1)\<lparr>cap_pos := v_land v 0\<rparr>\<rparr>"
    unfolding seekTo_empty_stream [OF c assms(2), of 0] n1 z ..
  finally have o: "s' = s1\<lparr>cap := (cap s1)\<lparr>cap_pos := v_land v 0\<rparr>\<rparr>" .
  have c': "cap_video (cap s') = Some v" unfolding o using c by simp
  have n: "frameCount s' = 0" unfolding o using n1 by simp
  have i: "currentFrameIndex s' = 0" unfolding o using i1 by simp
  have b: "currentFrameBGR s' = currentFrameBGR s" unfolding o using b1 by simp
  have p: "cap_pos (cap s') = v_land v 0" unfolding o by simp
  have sk: "seekTo j s' = s'" for j
    unfolding seekTo_empty_stream [OF c' assms(2), of j] n z p [symmetric] by simp
  have stp: "stepRelative d s' = s'" for d
    by (simp add: stepRelative_def sk)
  have pl: "playing (setPlaying True s')" by (simp add: setPlaying_def)
  have tg: "playing (togglePlayPause (setPlaying False s'))"
    using c' by (simp add: togglePlayPause_def setPlaying_def isOpened_def)
  have tk: "\<not> playing (tick (setPlaying True s'))"
    using c' assms(2) by (auto simp add: tick_def setPlaying_def isOpened_def cap_read_def)
  show ?thesis unfolding s'_def [symmetric] using n i b sk stp pl tg tk by blast
qed

theorem empty_stream_session_witness:
  "videos studio_world ''empty.mp4'' = Some empty_clip \<and>
   v_frames empty_clip = [] \<and> v_frame_count empty_clip = 0 \<and>
   frameCount (openVideo studio_world ''empty.mp4'' idle_window) = 0 \<and>
   seekTo 5 (openVideo studio_world ''empty.mp4'' idle_window) =
     openVideo studio_world ''empty.mp4'' idle_window \<and>
   stepRelative 1 (openVideo studio_world ''empty.mp4'' idle_window) =
     openVideo studio_world ''empty.mp4'' idle_window \<and>
   \<not> playing (tick (setPlaying True (openVideo studio_world ''empty.mp4'' idle_window)))"
  using empty_stream_session [OF studio_videos(3), of idle_window] studio_videos(3)
  by (simp add: clip_sel)

text \<open>
  The claim as stated fails: the play button on an opened empty stream sets \<open>playing\<close>.
\<close>

theorem empty_stream_playing_counterexample:
  "videos studio_world ''empty.mp4'' = Some empty_clip \<and>
   v_frames empty_clip = [] \<and>
   frameCount (openVideo studio_world ''empty.mp4'' idle_window) = 0 \<and>
   \<not> playing (openVideo studio_world ''empty.mp4'' idle_window) \<and>
   playing (on_playPauseBtn_clicked (openVideo studio_world ''empty.mp4'' idle_window))"
  by (simp add: openVideo_play_state [OF studio_videos(3)] openVideo_opened [OF studio_videos(3)]
      studio_videos clip_sel idle_window_sel on_playPauseBtn_clicked_def setPlaying_def
      isOpened_def)

subsection \<open>Stepping and seeking\<close>

text \<open>
  C8. \<open>stepRelative(delta)\<close> is \<open>seekTo(currentFrameIndex + delta)\<close> (the sum taken in
  \<open>int\<close>; it is the mathematical sum whenever that fits an \<open>int\<close>). \<open>seekTo\<close> depends on
  its argument only through the target clamped to \<open>[0, max(0, frameCount - 1)]\<close>, which is 0
  when \<open>frameCount\<close> is 0. With an exact decoder whose frame count is the number of frames:
  a step of +1 from an index below the last one gives the next index, a step of +1 at the
  last index leaves it, and a step of -1 at index 0 leaves it at 0.
\<close>

theorem stepRelative_seekTo_clamp:
  "stepRelative d s = seekTo (int32 (currentFrameIndex s + d)) s \<and>
   (INT_MIN \<le> currentFrameIndex s + d \<and> currentFrameIndex s + d \<le> INT_MAX \<longrightarrow>
      stepRelative d s = seekTo (currentFrameIndex s + d) s) \<and>
   (INT_MIN < frameCount s \<and> frameCount s \<le> INT_MAX \<longrightarrow>
      seekTo j s = seekTo (clamp j 0 (max 0 (frameCount s - 1))) s \<and>
      0 \<le> clamp j 0 (max 0 (frameCount s - 1)) \<and>
      clamp j 0 (max 0 (frameCount s - 1)) \<le> max 0 (frameCount s - 1) \<and>
      (frameCount s = 0 \<longrightarrow> clamp j 0 (max 0 (frameCount s - 1)) = 0)) \<and>
   (cap_video (cap s) = Some v \<and> (\<forall>k. v_land v k = k) \<and>
    frameCount s = int (length (v_frames v)) \<and> frameCount s \<le> INT_MAX \<and>
    0 \<le> currentFrameIndex s \<longrightarrow>
      (currentFrameIndex s < frameCount s - 1 \<longrightarrow>
         currentFrameIndex (stepRelative 1 s) = currentFrameIndex s + 1) \<and>
      (currentFrameIndex s = frameCount s - 1 \<longrightarrow>
         currentFrameIndex (stepRelative 1 s) = currentFrameIndex s) \<and>
      (currentFrameIndex s = 0 \<longrightarrow>
         currentFrameIndex (stepRelative (- 1) s) = 0))"
proof (intro conjI impI)
  show "stepRelative d s = seekTo (int32 (currentFrameIndex s + d)) s"
    by (simp add: stepRelative_def)
next
  assume "INT_MIN \<le> currentFrameIndex s + d \<and> currentFrameIndex s + d \<le> INT_MAX"
  then show "stepRelative d s = seekTo (currentFrameIndex s + d) s"
    by (simp add: stepRelative_def int32_id)
next
  assume r: "INT_MIN < frameCount s \<and> frameCount s \<le> INT_MAX"
  then have "int32 (frameCount s - 1) = frameCount s - 1"
    by (intro int32_id) (simp_all add: INT_MIN_def INT_MAX_def)
  then show "seekTo j s = seekTo (clamp j 0 (max 0 (frameCount s - 1))) s"
    using seekTo_clamped [of j s] by simp
  show "0 \<le> clamp j 0 (max 0 (frameCount s - 1))"
    by (simp add: clamp_def)
  show "clamp j 0 (max 0 (frameCount s - 1)) \<le> max 0 (frameCount s - 1)"
    by (auto simp add: clamp_def)
  assume "frameCount s = 0"
  then show "clamp j 0 (max 0 (frameCount s - 1)) = 0"
    by (simp add: clamp_def)
next
  assume h: "cap_video (cap s) = Some v \<and> (\<forall>k. v_land v k = k) \<and>
    frameCount s = int (length (v_frames v)) \<and> frameCount s \<le> INT_MAX \<and>
    0 \<le> currentFrameIndex s"
  assume lt: "currentFrameIndex s < frameCount s - 1"
  then have ne: "v_frames v \<noteq> []" using h by auto
  have w: "int32 (currentFrameIndex s + 1) = currentFrameIndex s + 1"
    using h lt by (intro int32_id) (simp_all add: INT_MIN_def INT_MAX_def)
  have st: "stepRelative 1 s = seekTo (currentFrameIndex s + 1) s"
    by (simp add: stepRelative_def w)
  show "currentFrameIndex (stepRelative 1 s) = currentFrameIndex s + 1"
    unfolding st using seekTo_exact [of s v "currentFrameIndex s + 1"] h ne lt
    by (simp add: clamp_def)
next
  assume h: "cap_video (cap s) = Some v \<and> (\<forall>k. v_land v k = k) \<and>
    frameCount s = int (length (v_frames v)) \<and> frameCount s \<le> INT_MAX \<and>
    0 \<le> currentFrameIndex s"
  assume lst: "currentFrameIndex s = frameCount s - 1"
  then have ne: "v_frames v \<noteq> []" using h by auto
  have w: "int32 (currentFrameIndex s + 1) = currentFrameIndex s + 1"
    using h lst by (intro int32_id) (simp_all add: INT_MIN_def INT_MAX_def)
  have st: "stepRelative 1 s = seekTo (currentFrameIndex s + 1) s"
    by (simp add: stepRelative_def w)
  show "currentFrameIndex (stepRelative 1 s) = currentFrameIndex s"
    unfolding st using seekTo_exact [of s v "currentFrameIndex s + 1"] h ne lst
    by (simp add: clamp_def)
next
  assume h: "cap_video (cap s) = Some v \<and> (\<forall>k. v_land v k = k) \<and>
    frameCount s = int (length (v_frames v)) \<and> frameCount s \<le> INT_MAX \<and>
    0 \<le> currentFrameIndex s"
  assume z: "currentFrameIndex s = 0"
  have w: "int32 (- 1) = - 1" by (simp add: int32_def)
  show "currentFrameIndex (stepRelative (- 1) s) = 0"
  proof (cases "v_frames v = []")
    case True
    then show ?thesis using h z by (simp add: stepRelative_def seekTo_empty_stream)
  next
    case False
    then have "1 \<le> frameCount s" using h by (cases "v_frames v") auto
    then show ?thesis
      using seekTo_exact [of s v "- 1"] h False z
      by (simp add: stepRelative_def w clamp_def)
  qed
qed

theorem stepRelative_seekTo_clamp_witness:
  "currentFrameIndex (openVideo studio_world ''clip.mp4'' idle_window) = 0 \<and>
   frameCount (openVideo studio_world ''clip.mp4'' idle_window) = 3 \<and>
   currentFrameIndex (stepRelative 1 (openVideo studio_world ''clip.mp4'' idle_window)) = 1 \<and>
   currentFrameIndex (stepRelative (- 1) (openVideo studio_world ''clip.mp4'' idle_window)) = 0 \<and>
   currentFrameIndex (seekTo 2 (openVideo studio_world ''clip.mp4'' idle_window)) = 2 \<and>
   currentFrameIndex (stepRelative 1 (seekTo 2 (openVideo studio_world ''clip.mp4'' idle_window))) = 2 \<and>
   seekTo 7 (openVideo studio_world ''clip.mp4'' idle_window) =
     seekTo 2 (openVideo studio_world ''clip.mp4'' idle_window)"
proof -
  define s0 where "s0 = openVideo studio_world ''clip.mp4'' idle_window"
  define s2 where "s2 = seekTo 2 s0"
  have f0: "cap_video (cap s0) = Some clip3" "frameCount s0 = 3" "currentFrameIndex s0 = 0"
    unfolding s0_def open_clip by simp_all
  have f2: "cap_video (cap s2) = Some clip3" "frameCount s2 = 3" "currentFrameIndex s2 = 2"
    unfolding s2_def s0_def seek_last_clip by simp_all
  have ex: "\<forall>k. v_land clip3 k = k" "int (length (v_frames clip3)) = 3"
    by (simp_all add: clip_sel)
  have h0: "cap_video (cap s0) = Some clip3 \<and> (\<forall>k. v_land clip3 k = k) \<and>
      frameCount s0 = int (length (v_frames clip3)) \<and> frameCount s0 \<le> INT_MAX \<and>
      0 \<le> currentFrameIndex s0"
    by (simp add: f0 ex INT_MAX_def)
  have h2: "cap_video (cap s2) = Some clip3 \<and> (\<forall>k. v_land clip3 k = k) \<and>
      frameCount s2 = int (length (v_frames clip3)) \<and> frameCount s2 \<le> INT_MAX \<and>
      0 \<le> currentFrameIndex s2"
    by (simp add: f2 ex INT_MAX_def)
  have r0: "INT_MIN < frameCount s0 \<and> frameCount s0 \<le> INT_MAX"
    by (simp add: f0 INT_MAX_def INT_MIN_def)
  have lt: "currentFrameIndex s0 < frameCount s0 - 1" by (simp add: f0)
  have z: "currentFrameIndex s0 = 0" by (simp add: f0)
  have lst: "currentFrameIndex s2 = frameCount s2 - 1" by (simp add: f2)
  note T0 = stepRelative_seekTo_clamp [of 1 s0 7 clip3]
  note T2 = stepRelative_seekTo_clamp [of 1 s2 7 clip3]
  from T0 h0 lt have a: "currentFrameIndex (stepRelative 1 s0) = currentFrameIndex s0 + 1"
    by blast
  from T0 h0 z have b: "currentFrameIndex (stepRelative (- 1) s0) = 0"
    by blast
  from T2 h2 lst have d: "currentFrameIndex (stepRelative 1 s2) = currentFrameIndex s2"
    by blast
  from T0 r0 have "seekTo 7 s0 = seekTo (clamp 7 0 (max 0 (frameCount s0 - 1))) s0"
    by blast
  then have e: "seekTo 7 s0 = seekTo 2 s0"
    by (simp add: f0 clamp_def)
  show ?thesis
    using a b d e f0 f2 unfolding s2_def s0_def by simp
qed


section \<open>Saving without a save directory\<close>

text \<open>
  C4 (as amended). When a frame has been decoded and no save directory is selected,
  \<open>saveCurrentFrame\<close> shows the notice asking for a directory and does nothing else: the
  world is unchanged (no directory created, no file written) and so is every field of the
  window but the record of notices shown.
\<close>

theorem saveCurrentFrame_no_directory:
  "saveDirPath s = [] \<Longrightarrow> currentFrameBGR s \<noteq> None \<Longrightarrow>
   saveCurrentFrame (w, s) =
     (w, s\<lparr>notices := notices s @
            [Information ''Save directory required'' ''Please select a save directory first.'']\<rparr>)"
  by (auto simp add: saveCurrentFrame_def)

theorem saveCurrentFrame_no_directory_witness:
  "saveDirPath (openVideo studio_world ''clip.mp4'' idle_window) = [] \<and>
   currentFrameBGR (openVideo studio_world ''clip.mp4'' idle_window) = Some 10 \<and>
   notices (snd (saveCurrentFrame (studio_world, openVideo studio_world ''clip.mp4'' idle_window))) =
     [Information ''Save directory required'' ''Please select a save directory first.''] \<and>
   fst (saveCurrentFrame (studio_world, openVideo studio_world ''clip.mp4'' idle_window)) =
     studio_world \<and>
   nextImageIndex (snd (saveCurrentFrame (studio_world, openVideo studio_world ''clip.mp4'' idle_window))) =
     nextImageIndex (openVideo studio_world ''clip.mp4'' idle_window)"
proof -
  define s0 where "s0 = openVideo studio_world ''clip.mp4'' idle_window"
  have d: "saveDirPath s0 = []" unfolding s0_def open_clip by (simp add: idle_window_sel)
  have f: "currentFrameBGR s0 = Some 10" unfolding s0_def open_clip by simp
  then have f': "currentFrameBGR s0 \<noteq> None" by simp
  have n: "notices s0 = []" unfolding s0_def open_clip by (simp add: idle_window_sel)
  show ?thesis
    unfolding s0_def [symmetric]
    using saveCurrentFrame_no_directory [OF d f', of studio_world] d f n by simp
qed

text \<open>
  The claim as stated fails when no frame has been decoded: with no directory selected
  either, no notice at all is shown.
\<close>

theorem no_directory_no_frame_counterexample:
  "saveDirPath (idle_window\<lparr>lastVideoPath := ''gone.mp4''\<rparr>) = [] \<and>
   notices (snd (saveCurrentFrame (bare_world, idle_window\<lparr>lastVideoPath := ''gone.mp4''\<rparr>))) = []"
  by (simp add: saveCurrentFrame_def idle_window_sel)


section \<open>Directory scanner\<close>

subsection \<open>The matches of the regular expression are the maximal digit runs\<close>

lemma globalMatch_acc_split:
  "globalMatch_acc cur s =
     (if cur @ takeWhile is_digit s = [] then [] else [cur @ takeWhile is_digit s]) @
     globalMatch_acc [] (dropWhile is_digit s)"
  by (induction s arbitrary: cur) auto

lemma globalMatch_Nil: "globalMatch [] = []"
  by (simp add: globalMatch_def)

lemma globalMatch_other: "\<not> is_digit c \<Longrightarrow> globalMatch (c # cs) = globalMatch cs"
  by (simp add: globalMatch_def)

lemma globalMatch_digit:
  "is_digit c \<Longrightarrow>
   globalMatch (c # cs) = takeWhile is_digit (c # cs) # globalMatch (dropWhile is_digit cs)"
  unfolding globalMatch_def
  by (subst globalMatch_acc_split) simp

lemma run_other:
  assumes "\<not> is_digit c"
  shows "maximal_digit_run (c # cs) r \<longleftrightarrow> maximal_digit_run cs r"
proof
  assume "maximal_digit_run (c # cs) r"
  then obtain pre post where r: "r \<noteq> []" "list_all is_digit r"
    and s: "c # cs = pre @ r @ post"
    and b: "pre = [] \<or> \<not> is_digit (last pre)" "post = [] \<or> \<not> is_digit (hd post)"
    unfolding maximal_digit_run_def by blast
  have "pre \<noteq> []"
  proof
    assume "pre = []"
    with s r have "c = hd r" "hd r \<in> set r" by (cases r; simp)+
    with r assms show False by (simp add: list_all_iff)
  qed
  then obtain pre' where p: "pre = c # pre'" using s by (cases pre) auto
  with s have "cs = pre' @ r @ post" by simp
  moreover have "pre' = [] \<or> \<not> is_digit (last pre')" using b p by (cases pre') auto
  ultimately show "maximal_digit_run cs r"
    unfolding maximal_digit_run_def using r b by blast
next
  assume "maximal_digit_run cs r"
  then obtain pre post where r: "r \<noteq> []" "list_all is_digit r"
    and s: "cs = pre @ r @ post"
    and b: "pre = [] \<or> \<not> is_digit (last pre)" "post = [] \<or> \<not> is_digit (hd post)"
    unfolding maximal_digit_run_def by blast
  have "c # cs = (c # pre) @ r @ post" using s by simp
  moreover have "\<not> is_digit (last (c # pre))" using b assms by auto
  ultimately show "maximal_digit_run (c # cs) r"
    unfolding maximal_digit_run_def using r b by blast
qed

lemma run_digit:
  assumes c: "is_digit c"
  shows "maximal_digit_run (c # cs) r \<longleftrightarrow>
         r = takeWhile is_digit (c # cs) \<or> maximal_digit_run (dropWhile is_digit cs) r"
proof
  assume "maximal_digit_run (c # cs) r"
  then obtain pre post where r: "r \<noteq> []" "list_all is_digit r"
    and s: "c # cs = pre @ r @ post"
    and b: "pre = [] \<or> \<not> is_digit (last pre)" "post = [] \<or> \<not> is_digit (hd post)"
    unfolding maximal_digit_run_def by blast
  show "r = takeWhile is_digit (c # cs) \<or> maximal_digit_run (dropWhile is_digit cs) r"
  proof (cases "pre = []")
    case True
    have "takeWhile is_digit post = []" using b(2) by (cases post) auto
    then have "takeWhile is_digit (r @ post) = r"
      using r(2) by (simp add: takeWhile_append2 list_all_iff)
    then show ?thesis using s True by simp
  next
    case False
    then have l: "last pre \<in> set pre" "\<not> is_digit (last pre)" using b(1) by auto
    define pre' where "pre' = dropWhile is_digit pre"
    have ne: "pre' \<noteq> []" unfolding pre'_def using l by (auto simp add: dropWhile_eq_Nil_conv)
    have "pre = takeWhile is_digit pre @ pre'" unfolding pre'_def by simp
    then have "last pre = last pre'" using ne by (metis last_appendR)
    then have e: "\<not> is_digit (last pre')" using l by simp
    have "dropWhile is_digit (c # cs) = pre' @ r @ post"
      unfolding s pre'_def using l by (simp add: dropWhile_append1)
    then have "dropWhile is_digit cs = pre' @ r @ post" using c by simp
    then have "maximal_digit_run (dropWhile is_digit cs) r"
      unfolding maximal_digit_run_def using r b(2) e by blast
    then show ?thesis ..
  qed
next
  assume h: "r = takeWhile is_digit (c # cs) \<or> maximal_digit_run (dropWhile is_digit cs) r"
  define t where "t = takeWhile is_digit (c # cs)"
  define d where "d = dropWhile is_digit (c # cs)"
  have td: "c # cs = t @ d" unfolding t_def d_def by simp
  have tne: "t \<noteq> []" unfolding t_def using c by simp
  have tdig: "list_all is_digit t" unfolding t_def by (auto simp add: list_all_iff dest: set_takeWhileD)
  have dhd: "d = [] \<or> \<not> is_digit (hd d)" unfolding d_def using hd_dropWhile by blast
  have dcs: "dropWhile is_digit cs = d" unfolding d_def using c by simp
  from h show "maximal_digit_run (c # cs) r"
  proof
    assume "r = takeWhile is_digit (c # cs)"
    then have "r = t" by (simp add: t_def)
    moreover have "c # cs = [] @ t @ d" using td by simp
    ultimately show ?thesis
      unfolding maximal_digit_run_def using tne tdig dhd by blast
  next
    assume "maximal_digit_run (dropWhile is_digit cs) r"
    then obtain pre post where r: "r \<noteq> []" "list_all is_digit r"
      and s: "d = pre @ r @ post"
      and b: "pre = [] \<or> \<not> is_digit (last pre)" "post = [] \<or> \<not> is_digit (hd post)"
      unfolding maximal_digit_run_def dcs by blast
    have pne: "pre \<noteq> []"
    proof
      assume "pre = []"
      with s r have "hd d = hd r" "hd r \<in> set r" "d \<noteq> []" by (cases r; simp)+
      with r dhd show False by (simp add: list_all_iff)
    qed
    then have "\<not> is_digit (last (t @ pre))" using b(1) by simp
    moreover have "c # cs = (t @ pre) @ r @ post" using td s by simp
    ultimately show ?thesis
      unfolding maximal_digit_run_def using r b(2) by blast
  qed
qed

lemma globalMatch_runs: "set (globalMatch s) = {r. maximal_digit_run s r}"
proof (induction s rule: length_induct)
  case (1 s)
  show ?case
  proof (cases s)
    case Nil
    have "\<not> maximal_digit_run [] r" for r by (simp add: maximal_digit_run_def)
    then show ?thesis using Nil by (simp add: globalMatch_Nil)
  next
    case (Cons c cs)
    show ?thesis
    proof (cases "is_digit c")
      case True
      have "length (dropWhile is_digit cs) < length s"
        using Cons by (simp add: length_dropWhile_le le_imp_less_Suc)
      then have "set (globalMatch (dropWhile is_digit cs)) =
          {r. maximal_digit_run (dropWhile is_digit cs) r}"
        using "1.IH" by blast
      then show ?thesis
        unfolding Cons globalMatch_digit [OF True] using run_digit [OF True, of cs] by auto
    next
      case False
      have "length cs < length s" using Cons by simp
      then have "set (globalMatch cs) = {r. maximal_digit_run cs r}" using "1.IH" by blast
      then show ?thesis
        unfolding Cons globalMatch_other [OF False] using run_other [OF False, of cs] by auto
    qed
  qed
qed

subsection \<open>The scan as a maximum\<close>

lemma digit_not_space_or_sign:
  "is_digit c \<Longrightarrow> \<not> is_space c \<and> c \<noteq> CHR ''-'' \<and> c \<noteq> CHR ''+''"
  by (auto simp add: is_digit_def is_space_def)

lemma trimmed_digits:
  assumes "r \<noteq> []" and "list_all is_digit r"
  shows "trimmed r = r"
proof -
  have "hd r \<in> set r" "last r \<in> set r" using assms(1) by simp_all
  then have h: "\<not> is_space (hd r)" "\<not> is_space (last r)"
    using assms(2) digit_not_space_or_sign by (auto simp add: list_all_iff)
  have a: "dropWhile is_space r = r" using h(1) by (simp add: dropWhile_eq_self_iff)
  have b: "dropWhile is_space (rev r) = rev r"
    using h(2) by (simp add: dropWhile_eq_self_iff hd_rev)
  show ?thesis by (simp add: trimmed_def a b)
qed

lemma toInt_digits:
  assumes "r \<noteq> []" and "list_all is_digit r"
  shows "toInt r =
     (if int (digits_val r) \<le> INT_MAX then Some (int (digits_val r)) else None)"
proof -
  have "hd r \<in> set r" using assms(1) by simp
  then have h: "hd r \<noteq> CHR ''-''" "hd r \<noteq> CHR ''+''"
    using assms(2) digit_not_space_or_sign by (auto simp add: list_all_iff)
  have "INT_MIN \<le> int (digits_val r)" by (simp add: INT_MIN_def)
  then show ?thesis
    using assms h by (simp add: toInt_def trimmed_digits Let_def)
qed

lemma Max_insert_max:
  fixes a b :: int
  assumes "finite S"
  shows "Max (insert (max a b) S) = Max (insert a (insert b S))"
  using assms by (cases "S = {}") (simp_all add: max.assoc)

lemma Max_insert_Max:
  fixes m :: int
  assumes "finite A" and "finite B"
  shows "Max (insert (Max (insert m A)) B) = Max (insert m (A \<union> B))"
proof (cases "B = {}")
  case True
  then show ?thesis by simp
next
  case False
  have "Max (insert m (A \<union> B)) = Max (insert m A \<union> B)" by simp
  also have "\<dots> = max (Max (insert m A)) (Max B)"
    using assms False by (intro Max_Un) simp_all
  finally show ?thesis using assms False by simp
qed

lemma finite_ints_of: "finite {v. \<exists>r\<in>set ms. toInt r = Some v}"
proof -
  have "{v. \<exists>r\<in>set ms. toInt r = Some v} \<subseteq> (\<lambda>r. the (toInt r)) ` set ms" by force
  then show ?thesis by (rule finite_subset) simp
qed

lemma scan_matches_Max:
  "scan_matches ms m = Max (insert m {v. \<exists>r\<in>set ms. toInt r = Some v})"
proof (induction ms arbitrary: m)
  case Nil
  then show ?case by simp
next
  case (Cons r ms)
  let ?S = "{v. \<exists>r\<in>set ms. toInt r = Some v}"
  show ?case
  proof (cases "toInt r")
    case None
    then have "{v. \<exists>r'\<in>set (r # ms). toInt r' = Some v} = ?S" by auto
    then show ?thesis using Cons.IH None by simp
  next
    case (Some v)
    then have "{v. \<exists>r'\<in>set (r # ms). toInt r' = Some v} = insert v ?S" by auto
    then show ?thesis
      using Cons.IH Some by (simp add: Max_insert_max [OF finite_ints_of])
  qed
qed

lemma finite_ints_of_files:
  "finite {v. \<exists>fi\<in>set fs. \<exists>r\<in>set (globalMatch (completeBaseName (entry_name fi))).
              toInt r = Some v}"
proof -
  have "{v. \<exists>fi\<in>set fs. \<exists>r\<in>set (globalMatch (completeBaseName (entry_name fi))).
            toInt r = Some v} =
        (\<Union>fi\<in>set fs. {v. \<exists>r\<in>set (globalMatch (completeBaseName (entry_name fi))).
            toInt r = Some v})"
    by auto
  then show ?thesis using finite_ints_of by simp
qed

lemma scan_files_Max:
  "scan_files fs m =
     Max (insert m {v. \<exists>fi\<in>set fs. \<exists>r\<in>set (globalMatch (completeBaseName (entry_name fi))).
                        toInt r = Some v})"
proof (induction fs arbitrary: m)
  case Nil
  then show ?case by simp
next
  case (Cons fi fs)
  let ?A = "{v. \<exists>r\<in>set (globalMatch (completeBaseName (entry_name fi))). toInt r = Some v}"
  let ?B = "{v. \<exists>fi\<in>set fs. \<exists>r\<in>set (globalMatch (completeBaseName (entry_name fi))).
                 toInt r = Some v}"
  have "{v. \<exists>fi'\<in>set (fi # fs). \<exists>r\<in>set (globalMatch (completeBaseName (entry_name fi'))).
            toInt r = Some v} = ?A \<union> ?B"
    by auto
  then show ?case
    using Cons.IH by (simp add: scan_matches_Max Max_insert_Max [OF finite_ints_of finite_ints_of_files])
qed

lemma run_values:
  "{v. \<exists>fi\<in>set fs. \<exists>r\<in>set (globalMatch (completeBaseName (entry_name fi))). toInt r = Some v} =
   {int (digits_val r) | e r.
      e \<in> set fs \<and> maximal_digit_run (completeBaseName (entry_name e)) r \<and>
      int (digits_val r) \<le> INT_MAX}"
proof -
  have "toInt r = Some v \<longleftrightarrow> v = int (digits_val r) \<and> int (digits_val r) \<le> INT_MAX"
    if "maximal_digit_run s r" for s r v
    using that toInt_digits [of r] by (auto simp add: maximal_digit_run_def)
  then show ?thesis
    unfolding globalMatch_runs by auto
qed

lemma extractLargestNumberInDir_int_runs:
  "extractLargestNumberInDir w dirPath = largest_int_run w dirPath"
  by (simp add: extractLargestNumberInDir_def largest_int_run_def scan_files_Max run_values
      split: option.split)

lemma spec_largestNumber_matches:
  "spec_largestNumber w dirPath =
     (case dirs w dirPath of
        None \<Rightarrow> 0
      | Some es \<Rightarrow>
          Max (insert 0 (\<Union>e\<in>set (entryInfoList es).
                 (\<lambda>r. int (digits_val r)) ` set (globalMatch (completeBaseName (entry_name e))))))"
proof -
  have eq: "{int (digits_val r) | e r.
           e \<in> set fs \<and> maximal_digit_run (completeBaseName (entry_name e)) r} =
        (\<Union>e\<in>set fs. (\<lambda>r. int (digits_val r)) ` set (globalMatch (completeBaseName (entry_name e))))"
    for fs
    unfolding globalMatch_runs by auto
  show ?thesis unfolding spec_largestNumber_def eq ..
qed

subsection \<open>The concrete directories, evaluated\<close>

lemma studio_dirs:
  "dirs studio_world ''/out'' = Some []"
  "dirs studio_world ''/data'' = Some data_listing"
  "dirs studio_world ''/big'' = Some big_listing"
  by (simp_all add: studio_world_def)

lemma image_names:
  "list_ex (\<lambda>f. wild_match f ''frame3.png'') name_filters"
  "list_ex (\<lambda>f. wild_match f ''img_10_v2.png'') name_filters"
  "list_ex (\<lambda>f. wild_match f ''x.png'') name_filters"
  "list_ex (\<lambda>f. wild_match f ''99999999999.png'') name_filters"
  by (simp_all add: name_filters_def to_lower_def)

lemma listings_kept:
  "entryInfoList data_listing = data_listing"
  "entryInfoList big_listing = big_listing"
  by (simp_all add: entryInfoList_def data_listing_def big_listing_def plain_file_def image_names)

lemma base_matches:
  "globalMatch (completeBaseName ''frame3.png'') = [''3'']"
  "globalMatch (completeBaseName ''img_10_v2.png'') = [''10'', ''2'']"
  "globalMatch (completeBaseName ''x.png'') = []"
  "globalMatch (completeBaseName ''99999999999.png'') = [''99999999999'']"
  by (simp_all add: globalMatch_def completeBaseName_def is_digit_def)

lemma run_numbers:
  "digits_val ''3'' = 3" "digits_val ''10'' = 10" "digits_val ''2'' = 2"
  "digits_val ''99999999999'' = 99999999999"
  by (simp_all add: digits_val_def digit_val_def)

lemma run_toInt:
  "toInt ''3'' = Some 3" "toInt ''10'' = Some 10" "toInt ''2'' = Some 2"
  "toInt ''99999999999'' = None"
  by (simp_all add: toInt_digits is_digit_def run_numbers INT_MAX_def)

lemma scan_data: "extractLargestNumberInDir studio_world ''/data'' = 10"
  by (simp add: extractLargestNumberInDir_def studio_dirs listings_kept)
     (simp add: data_listing_def plain_file_def base_matches run_toInt)

lemma scan_big: "extractLargestNumberInDir studio_world ''/big'' = 3"
  by (simp add: extractLargestNumberInDir_def studio_dirs listings_kept)
     (simp add: big_listing_def plain_file_def base_matches run_toInt)

subsection \<open>The claim\<close>

text \<open>
  C2 (as amended). \<open>extractLargestNumberInDir\<close> returns 0 for a directory that does not
  exist; otherwise, over the files selected by the image filters, it takes every maximal
  run of decimal digits of the base name, drops the runs whose number does not fit an
  \<open>int\<close> (\<open>toInt\<close> reports failure for them) and returns the maximum of the others, 0 when
  there is none. When every run fits an \<open>int\<close> this is the maximum over all runs, as the
  specification has it.
\<close>

theorem extractLargestNumberInDir_largest_run:
  "extractLargestNumberInDir w dirPath = largest_int_run w dirPath \<and>
   (dirs w dirPath = None \<longrightarrow> extractLargestNumberInDir w dirPath = 0) \<and>
   ((\<forall>es e r. dirs w dirPath = Some es \<and> e \<in> set (entryInfoList es) \<and>
        maximal_digit_run (completeBaseName (entry_name e)) r \<longrightarrow>
        int (digits_val r) \<le> INT_MAX) \<longrightarrow>
      extractLargestNumberInDir w dirPath = spec_largestNumber w dirPath)"
proof (intro conjI impI)
  show "extractLargestNumberInDir w dirPath = largest_int_run w dirPath"
    by (rule extractLargestNumberInDir_int_runs)
next
  assume "dirs w dirPath = None"
  then show "extractLargestNumberInDir w dirPath = 0"
    by (simp add: extractLargestNumberInDir_def)
next
  assume fits: "\<forall>es e r. dirs w dirPath = Some es \<and> e \<in> set (entryInfoList es) \<and>
        maximal_digit_run (completeBaseName (entry_name e)) r \<longrightarrow>
        int (digits_val r) \<le> INT_MAX"
  show "extractLargestNumberInDir w dirPath = spec_largestNumber w dirPath"
  proof (cases "dirs w dirPath")
    case None
    then show ?thesis by (simp add: extractLargestNumberInDir_def spec_largestNumber_def)
  next
    case (Some es)
    then have "{int (digits_val r) | e r.
           e \<in> set (entryInfoList es) \<and> maximal_digit_run (completeBaseName (entry_name e)) r \<and>
           int (digits_val r) \<le> INT_MAX} =
        {int (digits_val r) | e r.
           e \<in> set (entryInfoList es) \<and> maximal_digit_run (completeBaseName (entry_name e)) r}"
      using fits by blast
    then show ?thesis
      using Some
      by (simp add: extractLargestNumberInDir_int_runs largest_int_run_def spec_largestNumber_def)
  qed
qed

theorem extractLargestNumberInDir_largest_run_witness:
  "dirs studio_world ''/data'' = Some data_listing \<and>
   map entry_name (entryInfoList data_listing) = [''frame3.png'', ''img_10_v2.png'', ''x.png''] \<and>
   largest_int_run studio_world ''/data'' = 10 \<and>
   spec_largestNumber studio_world ''/data'' = 10 \<and>
   dirs studio_world ''/nowhere'' = None \<and>
   largest_int_run studio_world ''/nowhere'' = 0"
proof -
  note T = extractLargestNumberInDir_largest_run [of studio_world "''/data''"]
  note N = extractLargestNumberInDir_largest_run [of studio_world "''/nowhere''"]
  have n: "dirs studio_world ''/nowhere'' = None" by (simp add: studio_world_def)
  have fits: "\<forall>es e r. dirs studio_world ''/data'' = Some es \<and> e \<in> set (entryInfoList es) \<and>
        maximal_digit_run (completeBaseName (entry_name e)) r \<longrightarrow>
        int (digits_val r) \<le> INT_MAX"
  proof (intro allI impI, elim conjE)
    fix es e r
    assume "dirs studio_world ''/data'' = Some es" and e: "e \<in> set (entryInfoList es)"
      and "maximal_digit_run (completeBaseName (entry_name e)) r"
    then have es: "es = data_listing"
      and r: "r \<in> set (globalMatch (completeBaseName (entry_name e)))"
      by (simp_all add: studio_dirs globalMatch_runs)
    from e have "entry_name e \<in> {''frame3.png'', ''img_10_v2.png'', ''x.png''}"
      unfolding es listings_kept by (auto simp add: data_listing_def plain_file_def)
    with r have "r \<in> {''3'', ''10'', ''2''}" by (auto simp add: base_matches)
    then show "int (digits_val r) \<le> INT_MAX" by (auto simp add: run_numbers INT_MAX_def)
  qed
  from T have a: "largest_int_run studio_world ''/data'' = 10" by (simp add: scan_data)
  from T fits have "extractLargestNumberInDir studio_world ''/data'' =
      spec_largestNumber studio_world ''/data''" by blast
  then have b: "spec_largestNumber studio_world ''/data'' = 10" by (simp add: scan_data)
  from N n have "extractLargestNumberInDir studio_world ''/nowhere'' = 0" by blast
  with N have c: "largest_int_run studio_world ''/nowhere'' = 0" by simp
  have d: "map entry_name (entryInfoList data_listing) = [''frame3.png'', ''img_10_v2.png'', ''x.png'']"
    unfolding listings_kept by (simp add: data_listing_def plain_file_def)
  show ?thesis using a b c d n studio_dirs(2) by simp
qed

text \<open>
  The claim as stated fails on a directory holding \<open>frame3.png\<close> and \<open>99999999999.png\<close>:
  the maximum over all digit runs is 99999999999, the function returns 3.
\<close>

theorem oversize_run_counterexample:
  "dirs studio_world ''/big'' = Some big_listing \<and>
   map entry_name (entryInfoList big_listing) = [''frame3.png'', ''99999999999.png''] \<and>
   spec_largestNumber studio_world ''/big'' = 99999999999 \<and>
   extractLargestNumberInDir studio_world ''/big'' = 3"
proof -
  have "spec_largestNumber studio_world ''/big'' = 99999999999"
    by (simp add: spec_largestNumber_matches studio_dirs listings_kept)
       (simp add: big_listing_def plain_file_def base_matches run_numbers)
  moreover have "map entry_name (entryInfoList big_listing) = [''frame3.png'', ''99999999999.png'']"
    unfolding listings_kept by (simp add: big_listing_def plain_file_def)
  ultimately show ?thesis using scan_big studio_dirs(3) by simp
qed


section \<open>Save sequencer\<close>

subsection \<open>Decimal rendering and zero padding\<close>









subsection \<open>The range of the scanner\<close>




subsection \<open>One save, and three in a row\<close>











subsection \<open>The claim\<close>




section \<open>Config file\<close>

lemma loadConfig_line_paths:
  assumes "lastVideoPath s = lastVideoPath t" and "saveDirPath s = saveDirPath t"
  shows "lastVideoPath (loadConfig_line s l) = lastVideoPath (loadConfig_line t l) \<and>
         saveDirPath (loadConfig_line s l) = saveDirPath (loadConfig_line t l)"
  using assms by (simp add: loadConfig_line_def split: option.split prod.split)

lemma loadConfig_lines_paths:
  assumes "lastVideoPath s = lastVideoPath t" and "saveDirPath s = saveDirPath t"
  shows "lastVideoPath (foldl loadConfig_line s ls) = lastVideoPath (foldl loadConfig_line t ls) \<and>
         saveDirPath (foldl loadConfig_line s ls) = saveDirPath (foldl loadConfig_line t ls)"
  using assms
proof (induction ls arbitrary: s t)
  case Nil
  then show ?case by simp
next
  case (Cons l ls)
  show ?case
    using Cons.IH [of "loadConfig_line s l" "loadConfig_line t l"]
      loadConfig_line_paths [OF Cons.prems] by simp
qed

lemma loadConfig_lines_counter:
  assumes "\<forall>l\<in>set ls. \<forall>v. config_entry l \<noteq> Some (''next_image'', v)"
  shows "nextImageIndex (foldl loadConfig_line s ls) = nextImageIndex s"
  using assms
proof (induction ls arbitrary: s)
  case Nil
  then show ?case by simp
next
  case (Cons l ls)
  have "nextImageIndex (loadConfig_line s l) = nextImageIndex s"
    using Cons.prems by (auto simp add: loadConfig_line_def split: option.split prod.split)
  then show ?case using Cons by simp
qed

lemma loadConfig_line_malformed:
  assumes "config_entry raw = Some (''next_image'', val)" and "toInt val = None"
  shows "loadConfig_line s raw = s\<lparr>nextImageIndex := 0\<rparr>"
  using assms by (simp add: loadConfig_line_def toInt_value_def)

text \<open>
  C5 (as amended). When the last \<open>next_image\<close> line of the config file carries a value
  that is no well-formed integer, \<open>loadConfig\<close> sets \<open>nextImageIndex\<close> to 0 (what
  \<open>QString::toInt\<close> returns on failure); the line has no other effect: \<open>lastVideoPath\<close> and
  \<open>saveDirPath\<close> come out as they do from the file without that line.
\<close>

theorem loadConfig_malformed_next_image:
  assumes cfg: "config_file w = Some (pre @ [raw] @ post)"
    and entry: "config_entry raw = Some (''next_image'', val)"
    and bad: "toInt val = None"
    and last: "\<forall>l\<in>set post. \<forall>v. config_entry l \<noteq> Some (''next_image'', v)"
  shows "nextImageIndex (loadConfig w s) = 0 \<and>
         lastVideoPath (loadConfig w s) =
           lastVideoPath (loadConfig (w\<lparr>config_file := Some (pre @ post)\<rparr>) s) \<and>
         saveDirPath (loadConfig w s) =
           saveDirPath (loadConfig (w\<lparr>config_file := Some (pre @ post)\<rparr>) s)"
proof -
  define s1 where "s1 = foldl loadConfig_line s pre"
  have l: "loadConfig w s = foldl loadConfig_line (s1\<lparr>nextImageIndex := 0\<rparr>) post"
    using cfg by (simp add: loadConfig_def s1_def loadConfig_line_malformed [OF entry bad])
  have r: "loadConfig (w\<lparr>config_file := Some (pre @ post)\<rparr>) s = foldl loadConfig_line s1 post"
    by (simp add: loadConfig_def s1_def)
  have "nextImageIndex (loadConfig w s) = 0"
    unfolding l using loadConfig_lines_counter [OF last] by simp
  moreover have "lastVideoPath (loadConfig w s) =
        lastVideoPath (loadConfig (w\<lparr>config_file := Some (pre @ post)\<rparr>) s) \<and>
      saveDirPath (loadConfig w s) =
        saveDirPath (loadConfig (w\<lparr>config_file := Some (pre @ post)\<rparr>) s)"
    unfolding l r by (rule loadConfig_lines_paths) simp_all
  ultimately show ?thesis by simp
qed

lemma config_entries:
  "config_entry ''# settings'' = None"
  "config_entry ''last_video=v.mp4'' = Some (''last_video'', ''v.mp4'')"
  "config_entry ''save_dir=/out'' = Some (''save_dir'', ''/out'')"
  "config_entry ''next_image=abc'' = Some (''next_image'', ''abc'')"
  "config_entry ''next_image=7'' = Some (''next_image'', ''7'')"
  by (simp_all add: config_entry_def trimmed_def is_space_def indexOf_eq_def Let_def)

lemma config_values: "toInt ''abc'' = None" "toInt ''7'' = Some 7"
  by (simp_all add: toInt_def trimmed_def is_space_def is_digit_def digits_val_def digit_val_def
      INT_MAX_def INT_MIN_def Let_def)

lemma broken_config_loaded:
  "loadConfig broken_config_world idle_window =
     idle_window\<lparr>lastVideoPath := ''v.mp4'', saveDirPath := ''/out'', nextImageIndex := 0\<rparr>"
  by (simp add: loadConfig_def broken_config_world_def loadConfig_line_def config_entries
      toInt_value_def config_values)

theorem loadConfig_malformed_next_image_witness:
  "config_file broken_config_world =
     Some ([''# settings'', ''last_video=v.mp4'', ''save_dir=/out''] @ [''next_image=abc''] @ []) \<and>
   config_entry ''next_image=abc'' = Some (''next_image'', ''abc'') \<and>
   toInt ''abc'' = None \<and>
   nextImageIndex (loadConfig broken_config_world idle_window) = 0 \<and>
   lastVideoPath (loadConfig broken_config_world idle_window) = ''v.mp4'' \<and>
   saveDirPath (loadConfig broken_config_world idle_window) = ''/out''"
proof -
  have f: "config_file broken_config_world =
      Some ([''# settings'', ''last_video=v.mp4'', ''save_dir=/out''] @ [''next_image=abc''] @ [])"
    by (simp add: broken_config_world_def)
  have l: "\<forall>l\<in>set []. \<forall>v. config_entry l \<noteq> Some (''next_image'', v)" by simp
  note T = loadConfig_malformed_next_image [OF f config_entries(4) config_values(1) l, of idle_window]
  have r: "loadConfig (broken_config_world\<lparr>config_file :=
        Some ([''# settings'', ''last_video=v.mp4'', ''save_dir=/out''] @ [])\<rparr>) idle_window =
      idle_window\<lparr>lastVideoPath := ''v.mp4'', saveDirPath := ''/out''\<rparr>"
    by (simp add: loadConfig_def loadConfig_line_def config_entries)
  show ?thesis using T f config_entries(4) config_values(1) unfolding r by simp
qed

text \<open>
  The claim as stated fails: the counter does not keep its prior value. From a window whose
  counter is 1 the malformed line leaves 0, next to the two paths of the same file; and a
  malformed line after \<open>next_image=7\<close> turns the 7 just read into 0.
\<close>

theorem malformed_next_image_counterexample:
  "nextImageIndex idle_window = 1 \<and>
   toInt ''abc'' = None \<and>
   nextImageIndex (loadConfig broken_config_world idle_window) = 0 \<and>
   lastVideoPath (loadConfig broken_config_world idle_window) = ''v.mp4'' \<and>
   saveDirPath (loadConfig broken_config_world idle_window) = ''/out'' \<and>
   nextImageIndex (loadConfig_line idle_window ''next_image=7'') = 7 \<and>
   nextImageIndex (loadConfig twice_config_world idle_window) = 0"
proof -
  have "nextImageIndex (loadConfig twice_config_world idle_window) = 0"
    by (simp add: loadConfig_def twice_config_world_def loadConfig_line_def config_entries
        toInt_value_def config_values)
  moreover have "nextImageIndex (loadConfig_line idle_window ''next_image=7'') = 7"
    by (simp add: loadConfig_line_def config_entries toInt_value_def config_values)
  ultimately show ?thesis
    by (simp add: broken_config_loaded idle_window_sel config_values)
qed

end
